theory Spec2Isabelle
  imports Main "HOL-Library.Word"
begin

section \<open>The code-generation shim \<open>components/usb_communication/__init__.py\<close>\<close>

text \<open>
  The module is glue for a host build framework: it names a C++ class, declares a
  configuration schema and, in \<open>to_code\<close>, asks the framework's code generator for one
  object and one registration. The framework itself (\<open>esphome.codegen\<close>,
  \<open>esphome.config_validation\<close>, \<open>esphome.const\<close>) is not part of the repository, so
  its objects appear here symbolically: a framework object is the term that the module's
  calls build, and a call into the code generator is an entry of the list of calls made.
\<close>

subsection \<open>Module-level values\<close>

text \<open>\<^verbatim>\<open>DEPENDENCIES = []\<close>\<close>

definition DEPENDENCIES :: "string list" where
  "DEPENDENCIES = []"

text \<open>\<^verbatim>\<open>from esphome.const import CONF_ID\<close>: the key under which a component's identifier is
  stored; the framework's constant is the string \<open>id\<close>.\<close>

definition CONF_ID :: string where
  "CONF_ID = ''id''"

text \<open>
  Expression objects of the code generator (\<open>cg.MockObj\<close>). \<open>Esphome_ns\<close> and
  \<open>Component\<close> stand for the framework's \<open>cg.esphome_ns\<close> and \<open>cg.Component\<close>; the
  other two constructors record the method calls \<open>ns.namespace(name)\<close> and
  \<open>ns.class_(name, *parents)\<close>.
\<close>

datatype mock_obj =
    Esphome_ns
  | Component
  | Namespace mock_obj string
  | Class mock_obj string "mock_obj list"

definition namespace :: "mock_obj \<Rightarrow> string \<Rightarrow> mock_obj" where
  "namespace ns name = Namespace ns name"

definition class' :: "mock_obj \<Rightarrow> string \<Rightarrow> mock_obj list \<Rightarrow> mock_obj" where
  "class' ns name parents = Class ns name parents"

text \<open>\<^verbatim>\<open>usb_communication_ns = cg.esphome_ns.namespace("usb_communication")\<close>\<close>

definition usb_communication_ns :: mock_obj where
  "usb_communication_ns = namespace Esphome_ns ''usb_communication''"

text \<open>\<^verbatim>\<open>USBCommunicationComponent = usb_communication_ns.class_(
    "USBCommunicationComponent", cg.Component)\<close>\<close>

definition USBCommunicationComponent :: mock_obj where
  "USBCommunicationComponent =
     class' usb_communication_ns ''USBCommunicationComponent'' [Component]"

subsection \<open>Configurations and the schema\<close>

text \<open>
  A configuration is a Python dict from option names to values, kept as an association
  list that is read with \<open>map_of\<close>. Values are \<open>None\<close>, strings, numbers and the
  framework's identifier objects (a name, absent while it is still to be generated, and
  the C++ type the identifier declares).
\<close>

type_synonym key = string

datatype cfg_value =
    NoneV
  | StrV string
  | NumV int
  | IDV "string option" mock_obj

type_synonym config = "(key \<times> cfg_value) list"

text \<open>A validator returns the validated value or raises the framework's \<open>Invalid\<close>.\<close>

datatype cv_error = Invalid string

type_synonym validator = "cfg_value \<Rightarrow> cv_error + cfg_value"

text \<open>
  Schema keys carry a marker. \<open>cv.GenerateID()\<close> is an optional key, by default
  \<open>CONF_ID\<close>, whose validator is run on \<open>None\<close> when the user gave no value;
  \<open>Optional\<close> keys may be absent; \<open>Required\<close> keys may not.
\<close>

datatype marker = GenerateID key | Optional key | Required key

fun marker_key :: "marker \<Rightarrow> key" where
  "marker_key (GenerateID k) = k"
| "marker_key (Optional k) = k"
| "marker_key (Required k) = k"

type_synonym schema = "(marker \<times> validator) list"

definition schema_keys :: "schema \<Rightarrow> key list" where
  "schema_keys s = map (marker_key \<circ> fst) s"

text \<open>\<open>s.extend(t)\<close>: the options of \<open>t\<close> are added to those of \<open>s\<close>; an option of \<open>t\<close>
  replaces the option of \<open>s\<close> with the same key.\<close>

definition extend_schema :: "schema \<Rightarrow> schema \<Rightarrow> schema" where
  "extend_schema s t = filter (\<lambda>e. marker_key (fst e) \<notin> set (schema_keys t)) s @ t"

text \<open>
  Applying a schema to a configuration. Keys the schema does not declare are rejected;
  then each declared option is validated in turn and the validated values are collected.
\<close>

fun validate_options :: "schema \<Rightarrow> config \<Rightarrow> cv_error + config" where
  "validate_options [] raw = Inr []"
| "validate_options ((m, v) # es) raw =
     (case map_of raw (marker_key m) of
        Some x \<Rightarrow>
          (case v x of
             Inl e \<Rightarrow> Inl e
           | Inr y \<Rightarrow>
               (case validate_options es raw of
                  Inl e \<Rightarrow> Inl e
                | Inr out \<Rightarrow> Inr ((marker_key m, y) # out)))
      | None \<Rightarrow>
          (case m of
             GenerateID k \<Rightarrow>
               (case v NoneV of
                  Inl e \<Rightarrow> Inl e
                | Inr y \<Rightarrow>
                    (case validate_options es raw of
                       Inl e \<Rightarrow> Inl e
                     | Inr out \<Rightarrow> Inr ((k, y) # out)))
           | Optional k \<Rightarrow> validate_options es raw
           | Required k \<Rightarrow> Inl (Invalid ''required key not provided'')))"

definition apply_schema :: "schema \<Rightarrow> config \<Rightarrow> cv_error + config" where
  "apply_schema s raw =
     (if \<exists>k \<in> set (map fst raw). k \<notin> set (schema_keys s)
      then Inl (Invalid ''extra keys not allowed'')
      else validate_options s raw)"

text \<open>
  \<^verbatim>\<open>CONFIG_SCHEMA = cv.Schema(
    {cv.GenerateID(): cv.declare_id(USBCommunicationComponent)}
  ).extend(cv.COMPONENT_SCHEMA)\<close>

  The framework's \<open>cv.declare_id\<close> and \<open>cv.COMPONENT_SCHEMA\<close> are parameters.
\<close>

definition CONFIG_SCHEMA :: "(mock_obj \<Rightarrow> validator) \<Rightarrow> schema \<Rightarrow> schema" where
  "CONFIG_SCHEMA declare_id COMPONENT_SCHEMA =
     extend_schema [(GenerateID CONF_ID, declare_id USBCommunicationComponent)] COMPONENT_SCHEMA"

subsection \<open>The code-generation hook\<close>

text \<open>
  The code generator's state is the list of calls made into it. \<open>cg.new_Pvariable(id)\<close>
  returns the variable it created; \<open>cg.register_component(var, config)\<close> is passed
  that variable and the whole configuration. The two functions below record the call
  and its arguments only. What the framework does inside a call, and the errors it
  raises there (\<open>cg.new_Pvariable\<close> expects an identifier object and fails on any
  other value), is not modelled: the properties of \<open>to_code\<close> say which calls the hook
  makes, with which arguments and in which order, and where its own lookup fails.
\<close>

datatype variable = Pvariable cfg_value

datatype cg_call =
    New_Pvariable_call cfg_value
  | Register_component_call variable config

type_synonym cg_state = "cg_call list"

definition new_Pvariable :: "cfg_value \<Rightarrow> cg_state \<Rightarrow> variable \<times> cg_state" where
  "new_Pvariable ident s = (Pvariable ident, s @ [New_Pvariable_call ident])"

definition register_component :: "variable \<Rightarrow> config \<Rightarrow> cg_state \<Rightarrow> variable \<times> cg_state" where
  "register_component var config s = (var, s @ [Register_component_call var config])"

datatype py_error = KeyError key

text \<open>\<^verbatim>\<open>config[key]\<close> raises \<open>KeyError\<close> when the key is missing.\<close>

definition getitem :: "config \<Rightarrow> key \<Rightarrow> py_error + cfg_value" where
  "getitem config k = (case map_of config k of None \<Rightarrow> Inl (KeyError k) | Some v \<Rightarrow> Inr v)"

text \<open>
  \<^verbatim>\<open>async def to_code(config):
    var = cg.new_Pvariable(config[CONF_ID])
    await cg.register_component(var, config)\<close>
\<close>

definition to_code :: "config \<Rightarrow> cg_state \<Rightarrow> py_error + cg_state" where
  "to_code config s =
     (case getitem config CONF_ID of
        Inl e \<Rightarrow> Inl e
      | Inr ident \<Rightarrow>
          (let (var, s1) = new_Pvariable ident s;
               (_, s2) = register_component var config s1
           in Inr s2))"

text \<open>Two calls are the same up to the configuration handed to the registration.\<close>

fun same_up_to_config :: "cg_call \<Rightarrow> cg_call \<Rightarrow> bool" where
  "same_up_to_config (New_Pvariable_call a) (New_Pvariable_call b) = (a = b)"
| "same_up_to_config (Register_component_call v _) (Register_component_call w _) = (v = w)"
| "same_up_to_config _ _ = False"

subsection \<open>Instances for concrete checks\<close>

text \<open>
  Instances of the two framework parameters for concrete checks: an identifier validator
  that declares an identifier of the given type (generated when the value is \<open>None\<close>,
  named when it is a string), and a component schema with one optional numeric option.
\<close>

definition example_declare_id :: "mock_obj \<Rightarrow> validator" where
  "example_declare_id t v =
     (case v of
        NoneV \<Rightarrow> Inr (IDV None t)
      | StrV n \<Rightarrow> Inr (IDV (Some n) t)
      | _ \<Rightarrow> Inl (Invalid ''expected an identifier''))"

definition example_float :: validator where
  "example_float v = (case v of NumV n \<Rightarrow> Inr (NumV n) | _ \<Rightarrow> Inl (Invalid ''expected float''))"

definition example_COMPONENT_SCHEMA :: schema where
  "example_COMPONENT_SCHEMA = [(Optional ''setup_priority'', example_float)]"

section \<open>The driver behind the component\<close>

text \<open>
  The class that the shim registers is implemented outside the Python sources. Its
  framing engine, send queue and transport adapter are modelled below from the
  specification's sections 3, 4.1 to 4.3 and 8.
\<close>

subsection \<open>Frames and their wire format\<close>

type_synonym byte = "8 word"

text \<open>
  Modelled from the spec: the wire-format constants, which the specification leaves to
  the implementation, are the fields of one record: the start marker (\<open>0x7E\<close> in the
  example of section 8), the configured maximum frame size, and the checksum function,
  computed over the length byte followed by the payload.
\<close>

record framing =
  start_marker :: byte
  max_frame_size :: nat
  checksum :: "byte list \<Rightarrow> byte"

text \<open>
  Modelled from the spec: a Frame (section 3) carries a length and payload bytes; the
  start marker and the checksum are added on the wire.
\<close>

record frame =
  frame_length :: nat
  payload :: "byte list"

text \<open>
  Modelled from the spec: the Frame invariant of section 3, \<open>length\<close> matches the
  payload byte count, together with the bounds a frame must meet to be accepted: the
  maximum frame size of section 4.2 and the one-byte length field of the example in
  section 8.
\<close>

definition valid_frame :: "framing \<Rightarrow> frame \<Rightarrow> bool" where
  "valid_frame cfg F =
     (frame_length F = length (payload F) \<and>
      frame_length F \<le> max_frame_size cfg \<and>
      frame_length F \<le> 255)"

text \<open>
  Modelled from the spec: the frame layout of section 3,
  \<open>[start marker][length][payload bytes][checksum]\<close>, the checksum computed over
  \<open>length + payload\<close>.
\<close>

definition encode :: "framing \<Rightarrow> frame \<Rightarrow> byte list" where
  "encode cfg F =
     start_marker cfg # of_nat (frame_length F) # payload F @
     [checksum cfg (of_nat (frame_length F) # payload F)]"

subsection \<open>The framing engine\<close>

text \<open>
  Modelled from the spec: the states of section 4.2 in which the engine waits for a
  byte. \<open>DISPATCH\<close> is passed through while the checksum byte is handled and is the
  \<open>Dispatch\<close> event below.
\<close>

datatype fstate = AWAIT_START | READ_LENGTH | READ_PAYLOAD | READ_CHECKSUM

text \<open>
  Modelled from the spec: what the engine reports while it consumes bytes: a frame
  handed to the dispatch registry, or one of the recoverable errors of section 7.
\<close>

datatype event = Dispatch frame | ChecksumMismatch | FrameTooLarge

text \<open>
  Modelled from the spec: the engine's data, kept between polls: the state, the
  declared length, the payload bytes received so far (the receive buffer) and the error
  counter that a checksum mismatch increments.
\<close>

record engine =
  state :: fstate
  rx_length :: nat
  rx_buffer :: "byte list"
  error_count :: nat

text \<open>
  Modelled from the spec: the engine after \<open>setup\<close>: searching for a start of frame,
  buffer cleared, no error counted.
\<close>

definition initial_engine :: engine where
  "initial_engine = \<lparr>state = AWAIT_START, rx_length = 0, rx_buffer = [], error_count = 0\<rparr>"

text \<open>
  Modelled from the spec: the transition rules of section 4.2, one incoming byte at a
  time. A frame with an empty payload goes from the length straight to the checksum.
\<close>

definition step :: "framing \<Rightarrow> engine \<Rightarrow> byte \<Rightarrow> engine \<times> event list" where
  "step cfg e b =
     (case state e of
        AWAIT_START \<Rightarrow>
          (if b = start_marker cfg
           then (e\<lparr>state := READ_LENGTH, rx_length := 0, rx_buffer := []\<rparr>, [])
           else (e, []))
      | READ_LENGTH \<Rightarrow>
          (if unat b > max_frame_size cfg
           then (e\<lparr>state := AWAIT_START\<rparr>, [FrameTooLarge])
           else if unat b = 0
           then (e\<lparr>state := READ_CHECKSUM, rx_length := 0, rx_buffer := []\<rparr>, [])
           else (e\<lparr>state := READ_PAYLOAD, rx_length := unat b, rx_buffer := []\<rparr>, []))
      | READ_PAYLOAD \<Rightarrow>
          (if length (rx_buffer e) + 1 = rx_length e
           then (e\<lparr>state := READ_CHECKSUM, rx_buffer := rx_buffer e @ [b]\<rparr>, [])
           else (e\<lparr>rx_buffer := rx_buffer e @ [b]\<rparr>, []))
      | READ_CHECKSUM \<Rightarrow>
          (if checksum cfg (of_nat (rx_length e) # rx_buffer e) = b
           then (e\<lparr>state := AWAIT_START, rx_length := 0, rx_buffer := []\<rparr>,
                 [Dispatch \<lparr>frame_length = rx_length e, payload = rx_buffer e\<rparr>])
           else (e\<lparr>state := AWAIT_START, rx_length := 0, rx_buffer := [],
                   error_count := error_count e + 1\<rparr>,
                 [ChecksumMismatch])))"

text \<open>
  Modelled from the spec: a poll drains the bytes that are available through the
  engine; the engine's data carries over to the next poll.
\<close>

fun feed :: "framing \<Rightarrow> engine \<Rightarrow> byte list \<Rightarrow> engine \<times> event list" where
  "feed cfg e [] = (e, [])"
| "feed cfg e (b # bs) =
     (let (e1, ev1) = step cfg e b;
          (e2, ev2) = feed cfg e1 bs
      in (e2, ev1 @ ev2))"

text \<open>
  Modelled from the spec: \<open>decode\<close> of the round-trip property of section 8: the
  frame that a fresh engine dispatches for the given bytes, when it dispatches exactly
  one and reports nothing else.
\<close>

definition decode :: "framing \<Rightarrow> byte list \<Rightarrow> frame option" where
  "decode cfg bs =
     (case snd (feed cfg initial_engine bs) of
        [Dispatch F] \<Rightarrow> Some F
      | _ \<Rightarrow> None)"

text \<open>
  Modelled from the spec: corruption injected into the checksum of an encoded frame:
  the last byte of the frame is replaced.
\<close>

definition corrupt_checksum :: "byte list \<Rightarrow> byte \<Rightarrow> byte list" where
  "corrupt_checksum bs c = butlast bs @ [c]"

subsection \<open>Transport adapter and send queue\<close>

text \<open>
  Modelled from the spec: the transport adapter of section 4.1, seen from the writer:
  the number of bytes the link will still accept, and the bytes put on the link so far.
\<close>

record transport =
  room :: nat
  wire :: "byte list"

text \<open>
  Modelled from the spec: \<open>write(bytes) -> count written\<close>: non-blocking, partial
  writes allowed, 0 when the link is not ready.
\<close>

definition write_bytes :: "transport \<Rightarrow> byte list \<Rightarrow> nat \<times> transport" where
  "write_bytes t bs =
     (let n = min (room t) (length bs)
      in (n, t\<lparr>room := room t - n, wire := wire t @ take n bs\<rparr>))"

text \<open>
  Modelled from the spec: the SendQueue of section 3, an ordered, capacity-bounded
  sequence of pending frames (as encoded), with the cursor into the current frame of
  section 4.3.
\<close>

record send_queue =
  frames :: "byte list list"
  capacity :: nat
  cursor :: nat

text \<open>Modelled from the spec: \<open>enqueue(message) -> success|REJECTED_FULL\<close>, the
  rejection being the recoverable \<open>QueueFull\<close> of section 7.\<close>

datatype enqueue_result = Success | QueueFull

definition enqueue :: "framing \<Rightarrow> send_queue \<Rightarrow> frame \<Rightarrow> enqueue_result \<times> send_queue" where
  "enqueue cfg q F =
     (if capacity q \<le> length (frames q)
      then (QueueFull, q)
      else (Success, q\<lparr>frames := frames q @ [encode cfg F]\<rparr>))"

text \<open>
  Modelled from the spec: draining of section 4.3. The current frame is written from
  the cursor on; when the transport took all of it the next frame follows, otherwise
  the cursor advances by the count written and the poll ends.
\<close>

fun drain :: "byte list list \<Rightarrow> nat \<Rightarrow> transport \<Rightarrow> (byte list list \<times> nat) \<times> transport" where
  "drain [] cur t = (([], 0), t)"
| "drain (f # fs) cur t =
     (let (n, t1) = write_bytes t (drop cur f)
      in if length f \<le> cur + n
         then drain fs 0 t1
         else ((f # fs, cur + n), t1))"

text \<open>
  Modelled from the spec: the send half of one poll: the queue is drained into the
  transport and keeps the frames and the cursor that draining left.
\<close>

definition poll_send :: "send_queue \<Rightarrow> transport \<Rightarrow> send_queue \<times> transport" where
  "poll_send q t =
     (let ((fs, c), t1) = drain (frames q) (cursor q) t
      in (q\<lparr>frames := fs, cursor := c\<rparr>, t1))"

text \<open>
  Modelled from the spec: successive polls; before each poll the link has become ready
  for the given number of bytes.
\<close>

fun polls :: "nat list \<Rightarrow> send_queue \<Rightarrow> transport \<Rightarrow> send_queue \<times> transport" where
  "polls [] q t = (q, t)"
| "polls (r # rs) q t =
     (let (q1, t1) = poll_send q (t\<lparr>room := r\<rparr>)
      in polls rs q1 t1)"

text \<open>
  Modelled from the spec: the bytes of the queue that are still to be written: the
  current frame from the cursor on, then the frames behind it.
\<close>

definition pending :: "byte list list \<Rightarrow> nat \<Rightarrow> byte list" where
  "pending fs cur = (case fs of [] \<Rightarrow> [] | f # r \<Rightarrow> drop cur f @ concat r)"

subsection \<open>Instances for concrete checks\<close>

text \<open>
  Modelled from the spec: an instance of the wire-format constants, with the start
  marker \<open>0x7E\<close> of the example in section 8 and the sum of the bytes as checksum;
  the \<open>PING\<close> frame of that example; a send queue holding two frames, at its capacity
  of two; and a transport on which nothing has been written.
\<close>

definition example_framing :: framing where
  "example_framing = \<lparr>start_marker = 0x7E, max_frame_size = 64, checksum = sum_list\<rparr>"

definition example_ping :: frame where
  "example_ping = \<lparr>frame_length = 4, payload = [0x50, 0x49, 0x4E, 0x47]\<rparr>"

definition example_queue :: send_queue where
  "example_queue = \<lparr>frames = [[1, 2, 3, 4, 5], [6, 7]], capacity = 2, cursor = 0\<rparr>"

definition example_transport :: transport where
  "example_transport = \<lparr>room = 0, wire = []\<rparr>"

section \<open>Properties of the shim\<close>

lemma same_up_to_config_refl: "same_up_to_config c c"
  by (cases c) simp_all

lemma to_code_present:
  "map_of config CONF_ID = Some i \<Longrightarrow>
   to_code config s =
     Inr (s @ [New_Pvariable_call i, Register_component_call (Pvariable i) config])"
  by (simp add: to_code_def getitem_def new_Pvariable_def register_component_def)

lemma to_code_absent:
  "map_of config CONF_ID = None \<Longrightarrow> to_code config s = Inl (KeyError CONF_ID)"
  by (simp add: to_code_def getitem_def)

lemma validate_options_has_key:
  "validate_options s raw = Inr out \<Longrightarrow> (GenerateID k, v) \<in> set s \<Longrightarrow> k \<in> fst ` set out"
proof (induction s raw arbitrary: out rule: validate_options.induct)
  case (1 raw)
  then show ?case by simp
next
  case (2 m w es raw)
  then show ?case
    by (auto split: option.splits sum.splits marker.splits)
qed

lemma generated_id_in_CONFIG_SCHEMA:
  "CONF_ID \<notin> set (schema_keys cs) \<Longrightarrow>
   (GenerateID CONF_ID, d USBCommunicationComponent) \<in> set (CONFIG_SCHEMA d cs)"
  by (simp add: CONFIG_SCHEMA_def extend_schema_def)

lemma accepted_has_id:
  assumes "CONF_ID \<notin> set (schema_keys cs)"
    and "apply_schema (CONFIG_SCHEMA d cs) raw = Inr config"
  shows "\<exists>i. map_of config CONF_ID = Some i"
proof -
  from assms(2) have "validate_options (CONFIG_SCHEMA d cs) raw = Inr config"
    by (simp add: apply_schema_def split: if_splits)
  with generated_id_in_CONFIG_SCHEMA [OF assms(1)] have "CONF_ID \<in> fst ` set config"
    by (rule validate_options_has_key [rotated])
  then show ?thesis
    by (metis domIff dom_map_of_conv_image_fst not_None_eq)
qed


lemma example_accepts:
  "apply_schema (CONFIG_SCHEMA example_declare_id example_COMPONENT_SCHEMA)
     [(''setup_priority'', NumV 800)] =
   Inr [(''id'', IDV None USBCommunicationComponent), (''setup_priority'', NumV 800)]"
  by (simp add: apply_schema_def CONFIG_SCHEMA_def extend_schema_def schema_keys_def CONF_ID_def
      example_COMPONENT_SCHEMA_def example_declare_id_def example_float_def)

lemma example_no_id: "CONF_ID \<notin> set (schema_keys example_COMPONENT_SCHEMA)"
  by (simp add: schema_keys_def example_COMPONENT_SCHEMA_def CONF_ID_def)

text \<open>
  C1. For every configuration accepted by \<open>CONFIG_SCHEMA\<close> (the framework's component
  schema not declaring the identifier key itself), \<open>to_code\<close> succeeds and adds to the
  code generator's calls exactly one instantiation, \<open>new_Pvariable\<close> of the
  configuration's \<open>CONF_ID\<close> entry, followed by exactly one \<open>register_component\<close> on
  the variable that instantiation returned, and nothing else.
\<close>

theorem to_code_one_instantiation_one_registration:
  assumes "CONF_ID \<notin> set (schema_keys COMPONENT_SCHEMA)"
    and "apply_schema (CONFIG_SCHEMA declare_id COMPONENT_SCHEMA) raw = Inr config"
  shows "\<exists>i. map_of config CONF_ID = Some i \<and>
             to_code config s =
               Inr (s @ [New_Pvariable_call i, Register_component_call (Pvariable i) config])"
proof -
  from accepted_has_id [OF assms] obtain i where "map_of config CONF_ID = Some i" ..
  then show ?thesis
    using to_code_present by blast
qed

theorem to_code_one_instantiation_one_registration_witness:
  "CONF_ID \<notin> set (schema_keys example_COMPONENT_SCHEMA) \<and>
   apply_schema (CONFIG_SCHEMA example_declare_id example_COMPONENT_SCHEMA)
     [(''setup_priority'', NumV 800)] =
     Inr [(''id'', IDV None USBCommunicationComponent), (''setup_priority'', NumV 800)] \<and>
   (\<exists>i. map_of [(''id'', IDV None USBCommunicationComponent), (''setup_priority'', NumV 800)]
          CONF_ID = Some i \<and>
        to_code [(''id'', IDV None USBCommunicationComponent), (''setup_priority'', NumV 800)] [] =
          Inr ([] @ [New_Pvariable_call i,
                 Register_component_call (Pvariable i)
                   [(''id'', IDV None USBCommunicationComponent),
                    (''setup_priority'', NumV 800)]]))"
  using to_code_one_instantiation_one_registration [OF example_no_id example_accepts, of "[]"]
    example_no_id example_accepts
  by blast

text \<open>
  C2. The registered component is the class named \<open>USBCommunicationComponent\<close>, placed
  in the namespace \<open>usb_communication\<close> of the framework's root namespace, with the
  framework's \<open>Component\<close> as its only parent.
\<close>

theorem USBCommunicationComponent_declaration:
  "USBCommunicationComponent =
     Class (Namespace Esphome_ns ''usb_communication'') ''USBCommunicationComponent'' [Component]"
  by (simp add: USBCommunicationComponent_def usb_communication_ns_def class'_def namespace_def)

text \<open>
  C3. The schema is the extension by \<open>COMPONENT_SCHEMA\<close> of a schema with exactly one
  option, the generated identifier under \<open>CONF_ID\<close>; the options of \<open>CONFIG_SCHEMA\<close>
  are that key and the keys of \<open>COMPONENT_SCHEMA\<close>, no others.
\<close>

theorem CONFIG_SCHEMA_single_own_option:
  "(\<exists>own. CONFIG_SCHEMA declare_id COMPONENT_SCHEMA = extend_schema own COMPONENT_SCHEMA \<and>
          length own = 1 \<and>
          map fst own = [GenerateID CONF_ID]) \<and>
   set (schema_keys (CONFIG_SCHEMA declare_id COMPONENT_SCHEMA)) =
     insert CONF_ID (set (schema_keys COMPONENT_SCHEMA))"
proof
  show "\<exists>own. CONFIG_SCHEMA declare_id COMPONENT_SCHEMA = extend_schema own COMPONENT_SCHEMA \<and>
          length own = 1 \<and> map fst own = [GenerateID CONF_ID]"
    by (rule exI [of _ "[(GenerateID CONF_ID, declare_id USBCommunicationComponent)]"])
      (simp add: CONFIG_SCHEMA_def)
  show "set (schema_keys (CONFIG_SCHEMA declare_id COMPONENT_SCHEMA)) =
     insert CONF_ID (set (schema_keys COMPONENT_SCHEMA))"
    by (auto simp: CONFIG_SCHEMA_def extend_schema_def schema_keys_def)
qed

text \<open>C4. The module declares no dependencies: \<open>DEPENDENCIES\<close> is the empty list.\<close>

theorem DEPENDENCIES_empty: "DEPENDENCIES = []"
  by (simp add: DEPENDENCIES_def)

text \<open>
  C9, as stated, fails: \<open>register_component\<close> is handed the whole configuration, so two
  configurations with the same \<open>CONF_ID\<close> entry and different other options lead to
  different registration calls.
\<close>

theorem to_code_depends_on_other_keys_counterexample:
  "map_of [(''id'', IDV (Some ''usb'') USBCommunicationComponent), (''setup_priority'', NumV 800)]
     CONF_ID =
   map_of [(''id'', IDV (Some ''usb'') USBCommunicationComponent), (''setup_priority'', NumV 100)]
     CONF_ID \<and>
   to_code [(''id'', IDV (Some ''usb'') USBCommunicationComponent), (''setup_priority'', NumV 800)] []
   \<noteq>
   to_code [(''id'', IDV (Some ''usb'') USBCommunicationComponent), (''setup_priority'', NumV 100)] []"
  by (simp add: to_code_def getitem_def new_Pvariable_def register_component_def CONF_ID_def)

text \<open>
  C9, amended. For two configurations that agree on the \<open>CONF_ID\<close> key, \<open>to_code\<close>
  either fails on both with the same error or succeeds on both with the same
  instantiation and a registration of the same variable; the calls differ at most in the
  configuration that is passed to \<open>register_component\<close>.
\<close>

theorem to_code_same_up_to_config:
  assumes "map_of c1 CONF_ID = map_of c2 CONF_ID"
  shows "rel_sum (=) (list_all2 same_up_to_config) (to_code c1 s) (to_code c2 s)"
proof (cases "map_of c1 CONF_ID")
  case None
  with assms have "map_of c2 CONF_ID = None"
    by simp
  with None show ?thesis
    by (simp add: to_code_absent)
next
  case (Some i)
  with assms have "map_of c2 CONF_ID = Some i"
    by simp
  with Some show ?thesis
    by (simp add: to_code_present list_all2_appendI list_all2_refl same_up_to_config_refl)
qed

theorem to_code_same_up_to_config_witness:
  "map_of [(''id'', IDV (Some ''usb'') USBCommunicationComponent), (''setup_priority'', NumV 800)]
     CONF_ID =
   map_of [(''id'', IDV (Some ''usb'') USBCommunicationComponent), (''setup_priority'', NumV 100)]
     CONF_ID \<and>
   rel_sum (=) (list_all2 same_up_to_config)
     (to_code [(''id'', IDV (Some ''usb'') USBCommunicationComponent),
               (''setup_priority'', NumV 800)] [])
     (to_code [(''id'', IDV (Some ''usb'') USBCommunicationComponent),
               (''setup_priority'', NumV 100)] [])"
  using to_code_same_up_to_config
    [of "[(''id'', IDV (Some ''usb'') USBCommunicationComponent), (''setup_priority'', NumV 800)]"
        "[(''id'', IDV (Some ''usb'') USBCommunicationComponent), (''setup_priority'', NumV 100)]"
        "[]"]
  by (simp add: CONF_ID_def)

text \<open>
  C10. The lookup \<open>config[CONF_ID]\<close> in \<open>to_code\<close> is unguarded. The lookup yields
  a value exactly when the configuration contains the key \<open>CONF_ID\<close> and raises
  \<open>KeyError\<close> for that key exactly when it does not; \<open>to_code\<close> does not handle
  that error, so it ends with the \<open>KeyError\<close> exactly for the configurations that
  lack the key. A configuration accepted by \<open>CONFIG_SCHEMA\<close> always contains the key.
  Nothing is said here about what the code generator does with the value once the lookup
  has returned it.
\<close>

theorem to_code_unguarded_lookup:
  "((\<exists>v. getitem config CONF_ID = Inr v) = (CONF_ID \<in> fst ` set config)) \<and>
   ((getitem config CONF_ID = Inl (KeyError CONF_ID)) = (CONF_ID \<notin> fst ` set config)) \<and>
   ((to_code config s = Inl (KeyError CONF_ID)) = (CONF_ID \<notin> fst ` set config)) \<and>
   (CONF_ID \<notin> set (schema_keys COMPONENT_SCHEMA) \<and>
    apply_schema (CONFIG_SCHEMA declare_id COMPONENT_SCHEMA) raw = Inr config \<longrightarrow>
    CONF_ID \<in> fst ` set config)"
proof (cases "map_of config CONF_ID")
  case None
  then have "CONF_ID \<notin> fst ` set config"
    by (simp add: map_of_eq_None_iff)
  moreover from None have "getitem config CONF_ID = Inl (KeyError CONF_ID)"
    by (simp add: getitem_def)
  moreover from None have "to_code config s = Inl (KeyError CONF_ID)"
    by (rule to_code_absent)
  moreover from None have "\<not> (CONF_ID \<notin> set (schema_keys COMPONENT_SCHEMA) \<and>
    apply_schema (CONFIG_SCHEMA declare_id COMPONENT_SCHEMA) raw = Inr config)"
    using accepted_has_id by fastforce
  ultimately show ?thesis by simp
next
  case (Some i)
  then have "CONF_ID \<in> fst ` set config"
    by (metis map_of_eq_None_iff option.distinct(1))
  moreover from Some have "getitem config CONF_ID = Inr i"
    by (simp add: getitem_def)
  moreover from Some have "to_code config s =
     Inr (s @ [New_Pvariable_call i, Register_component_call (Pvariable i) config])"
    by (rule to_code_present)
  ultimately show ?thesis by simp
qed

theorem to_code_unguarded_lookup_witness:
  "getitem [(''id'', IDV None USBCommunicationComponent), (''setup_priority'', NumV 800)] CONF_ID =
     Inr (IDV None USBCommunicationComponent) \<and>
   getitem [(''setup_priority'', NumV 800)] CONF_ID = Inl (KeyError CONF_ID) \<and>
   to_code [(''setup_priority'', NumV 800)] [] = Inl (KeyError CONF_ID) \<and>
   to_code [(''id'', IDV None USBCommunicationComponent), (''setup_priority'', NumV 800)] [] \<noteq>
     Inl (KeyError CONF_ID) \<and>
   CONF_ID \<notin> set (schema_keys example_COMPONENT_SCHEMA) \<and>
   apply_schema (CONFIG_SCHEMA example_declare_id example_COMPONENT_SCHEMA)
     [(''setup_priority'', NumV 800)] =
     Inr [(''id'', IDV None USBCommunicationComponent), (''setup_priority'', NumV 800)] \<and>
   CONF_ID \<in> fst ` set [(''id'', IDV None USBCommunicationComponent),
                         (''setup_priority'', NumV 800)]"
  using to_code_unguarded_lookup
      [of "[(''id'', IDV None USBCommunicationComponent), (''setup_priority'', NumV 800)]" "[]"
          example_COMPONENT_SCHEMA example_declare_id "[(''setup_priority'', NumV 800)]"]
    to_code_unguarded_lookup [of "[(''setup_priority'', NumV 800)]" "[]"]
    example_no_id example_accepts
  by (simp add: CONF_ID_def getitem_def)

section \<open>Properties of the driver model\<close>

lemma unat_length_byte: "n \<le> 255 \<Longrightarrow> unat (of_nat n :: byte) = n"
  by (simp add: unat_of_nat take_bit_nat_eq_self)

lemma feed_append:
  "feed cfg e (xs @ ys) =
     (let (e1, ev1) = feed cfg e xs; (e2, ev2) = feed cfg e1 ys in (e2, ev1 @ ev2))"
  by (induction xs arbitrary: e) (simp_all split: prod.splits)

lemma feed_payload:
  "state e = READ_PAYLOAD \<Longrightarrow> ps \<noteq> [] \<Longrightarrow> rx_length e = length (rx_buffer e) + length ps \<Longrightarrow>
   feed cfg e ps = (e\<lparr>state := READ_CHECKSUM, rx_buffer := rx_buffer e @ ps\<rparr>, [])"
proof (induction ps arbitrary: e)
  case Nil
  then show ?case by simp
next
  case (Cons b ps)
  show ?case
  proof (cases "ps = []")
    case True
    with Cons.prems show ?thesis
      by (simp add: step_def)
  next
    case False
    let ?e1 = "e\<lparr>rx_buffer := rx_buffer e @ [b]\<rparr>"
    from False Cons.prems have s: "step cfg e b = (?e1, [])"
      by (simp add: step_def)
    from Cons.prems have "feed cfg ?e1 ps =
        (?e1\<lparr>state := READ_CHECKSUM, rx_buffer := rx_buffer ?e1 @ ps\<rparr>, [])"
      by (intro Cons.IH[OF _ False]) simp_all
    with s show ?thesis by simp
  qed
qed

lemma feed_frame:
  assumes "state e = AWAIT_START" and "length ps \<le> max_frame_size cfg" and "length ps \<le> 255"
  shows "feed cfg e (start_marker cfg # of_nat (length ps) # ps @ [c]) =
     (if checksum cfg (of_nat (length ps) # ps) = c
      then (e\<lparr>state := AWAIT_START, rx_length := 0, rx_buffer := []\<rparr>,
            [Dispatch \<lparr>frame_length = length ps, payload = ps\<rparr>])
      else (e\<lparr>state := AWAIT_START, rx_length := 0, rx_buffer := [],
              error_count := error_count e + 1\<rparr>, [ChecksumMismatch]))"
proof (cases "ps = []")
  case True
  with assms show ?thesis
    by (simp add: step_def)
next
  case False
  let ?e2 = "e\<lparr>state := READ_PAYLOAD, rx_length := length ps, rx_buffer := []\<rparr>"
  from assms False have u: "unat (of_nat (length ps) :: byte) = length ps"
    by (simp add: unat_length_byte)
  have p: "feed cfg ?e2 ps = (?e2\<lparr>state := READ_CHECKSUM, rx_buffer := rx_buffer ?e2 @ ps\<rparr>, [])"
    by (rule feed_payload) (simp_all add: False)
  from assms False u show ?thesis
    by (simp add: step_def feed_append p)
qed

text \<open>
  C5. For every valid frame \<open>F\<close>, decoding the encoding of \<open>F\<close> yields \<open>F\<close> again:
  a fresh framing engine fed the bytes of \<open>encode F\<close> dispatches exactly \<open>F\<close> and
  reports nothing else. It holds for every start marker, checksum function and maximum
  frame size.
\<close>

theorem decode_encode_roundtrip:
  assumes "valid_frame cfg F"
  shows "decode cfg (encode cfg F) = Some F"
proof -
  from assms have len: "frame_length F = length (payload F)"
    and b1: "length (payload F) \<le> max_frame_size cfg" and b2: "length (payload F) \<le> 255"
    by (simp_all add: valid_frame_def)
  have F: "\<lparr>frame_length = length (payload F), payload = payload F\<rparr> = F"
    using len by simp
  have "state initial_engine = AWAIT_START"
    by (simp add: initial_engine_def)
  from feed_frame [OF this b1 b2, of "checksum cfg (of_nat (length (payload F)) # payload F)"]
  show ?thesis
    by (simp add: decode_def encode_def len F)
qed

theorem decode_encode_roundtrip_witness:
  "valid_frame example_framing example_ping \<and>
   decode example_framing (encode example_framing example_ping) = Some example_ping"
  using decode_encode_roundtrip [of example_framing example_ping]
  by (simp add: valid_frame_def example_framing_def example_ping_def)

text \<open>The example of the specification's section 8, with the additive checksum of the
  instance.\<close>

lemma example_ping_wire:
  "encode example_framing example_ping = [0x7E, 0x04, 0x50, 0x49, 0x4E, 0x47, 0x32]"
  by (simp add: encode_def example_framing_def example_ping_def)

text \<open>
  C6. When the engine is searching for a start of frame and the stream brings a frame
  whose checksum byte is corrupted, followed by a valid frame, the engine discards the
  corrupted frame (it reports a checksum mismatch and counts one error, and dispatches
  nothing for it), is back in \<open>AWAIT_START\<close> after the corrupted frame, and then
  dispatches the next frame unchanged.
\<close>

theorem resync_after_corrupt_checksum:
  assumes "state e = AWAIT_START"
    and "valid_frame cfg F1" and "valid_frame cfg F2"
    and "c \<noteq> checksum cfg (of_nat (frame_length F1) # payload F1)"
  shows "feed cfg e (corrupt_checksum (encode cfg F1) c) =
           (e\<lparr>state := AWAIT_START, rx_length := 0, rx_buffer := [],
               error_count := error_count e + 1\<rparr>, [ChecksumMismatch]) \<and>
         feed cfg e (corrupt_checksum (encode cfg F1) c @ encode cfg F2) =
           (e\<lparr>state := AWAIT_START, rx_length := 0, rx_buffer := [],
               error_count := error_count e + 1\<rparr>, [ChecksumMismatch, Dispatch F2])"
proof -
  let ?e1 = "e\<lparr>state := AWAIT_START, rx_length := 0, rx_buffer := [],
               error_count := error_count e + 1\<rparr>"
  from assms(2) have len1: "frame_length F1 = length (payload F1)"
    and b1: "length (payload F1) \<le> max_frame_size cfg" and c1: "length (payload F1) \<le> 255"
    by (simp_all add: valid_frame_def)
  from assms(3) have len2: "frame_length F2 = length (payload F2)"
    and b2: "length (payload F2) \<le> max_frame_size cfg" and c2: "length (payload F2) \<le> 255"
    by (simp_all add: valid_frame_def)
  have F2: "\<lparr>frame_length = length (payload F2), payload = payload F2\<rparr> = F2"
    using len2 by simp
  have bad: "corrupt_checksum (encode cfg F1) c =
      start_marker cfg # of_nat (length (payload F1)) # payload F1 @ [c]"
    by (simp add: corrupt_checksum_def encode_def len1 butlast_append)
  have first: "feed cfg e (corrupt_checksum (encode cfg F1) c) = (?e1, [ChecksumMismatch])"
    using feed_frame [OF assms(1) b1 c1, of c] assms(4) by (simp add: bad len1)
  have "state ?e1 = AWAIT_START"
    by simp
  from feed_frame [OF this b2 c2, of "checksum cfg (of_nat (length (payload F2)) # payload F2)"]
  have second: "feed cfg ?e1 (encode cfg F2) = (?e1, [Dispatch F2])"
    by (simp add: encode_def len2 F2)
  from first second show ?thesis
    by (simp add: feed_append)
qed

theorem resync_after_corrupt_checksum_witness:
  "state initial_engine = AWAIT_START \<and>
   valid_frame example_framing example_ping \<and>
   (0xFF :: byte) \<noteq> checksum example_framing
      (of_nat (frame_length example_ping) # payload example_ping) \<and>
   feed example_framing initial_engine
     (corrupt_checksum (encode example_framing example_ping) 0xFF @
      encode example_framing example_ping) =
     (initial_engine\<lparr>error_count := 1\<rparr>, [ChecksumMismatch, Dispatch example_ping])"
  using resync_after_corrupt_checksum
    [of initial_engine example_framing example_ping example_ping "0xFF"]
  by (simp add: valid_frame_def example_framing_def example_ping_def initial_engine_def)

text \<open>
  C7. On a send queue that is at capacity, \<open>enqueue\<close> returns \<open>QueueFull\<close> and the
  queue is returned as it was: the pending frames, the cursor and the capacity are
  unchanged.
\<close>

theorem enqueue_full_rejected:
  assumes "capacity q \<le> length (frames q)"
  shows "enqueue cfg q F = (QueueFull, q)"
  using assms by (simp add: enqueue_def)

theorem enqueue_full_rejected_witness:
  "capacity example_queue \<le> length (frames example_queue) \<and>
   enqueue example_framing example_queue example_ping = (QueueFull, example_queue)"
  using enqueue_full_rejected [of example_queue example_framing example_ping]
  by (simp add: example_queue_def)

lemma pending_zero: "pending fs 0 = concat fs"
  by (simp add: pending_def split: list.splits)

lemma drain_wire:
  "drain fs cur t = ((fs', c'), t') \<Longrightarrow>
   wire t' = wire t @ take (room t) (pending fs cur) \<and>
   pending fs' c' = drop (room t) (pending fs cur)"
proof (induction fs arbitrary: cur t)
  case Nil
  then show ?case by (auto simp: pending_def)
next
  case (Cons f fs)
  let ?rest = "drop cur f"
  let ?n = "min (room t) (length ?rest)"
  let ?t1 = "t\<lparr>room := room t - ?n, wire := wire t @ take ?n ?rest\<rparr>"
  have unfold: "drain (f # fs) cur t =
      (if length f \<le> cur + ?n then drain fs 0 ?t1 else ((f # fs, cur + ?n), ?t1))"
    by (simp only: drain.simps write_bytes_def Let_def prod.case)
  show ?case
  proof (cases "length f \<le> cur + ?n")
    case True
    then have all: "length ?rest \<le> room t"
      by (simp add: min_def split: if_splits)
    then have n: "?n = length ?rest"
      by simp
    from Cons.prems have "drain fs 0 ?t1 = ((fs', c'), t')"
      unfolding unfold using True by (simp only: if_True)
    from Cons.IH [OF this]
    have "wire t' = wire ?t1 @ take (room ?t1) (concat fs)"
      and "pending fs' c' = drop (room ?t1) (concat fs)"
      by (simp_all add: pending_zero)
    with all show ?thesis
      by (simp add: pending_def n)
  next
    case False
    then have part: "room t < length ?rest"
      by (simp add: min_def split: if_splits)
    from Cons.prems have "((f # fs, cur + ?n), ?t1) = ((fs', c'), t')"
      unfolding unfold using False by (simp only: if_False)
    then have "fs' = f # fs" "c' = cur + ?n" "t' = ?t1"
      by simp_all
    with part show ?thesis
      by (simp add: pending_def min_def add.commute)
  qed
qed

lemma poll_send_wire:
  assumes "poll_send q t = (q', t')"
  shows "wire t' = wire t @ take (room t) (pending (frames q) (cursor q)) \<and>
         pending (frames q') (cursor q') = drop (room t) (pending (frames q) (cursor q))"
proof -
  obtain fs c t1 where d: "drain (frames q) (cursor q) t = ((fs, c), t1)"
    by (metis surj_pair)
  with assms have "q' = q\<lparr>frames := fs, cursor := c\<rparr>" "t' = t1"
    by (simp_all add: poll_send_def)
  with drain_wire [OF d] show ?thesis
    by simp
qed

lemma polls_wire:
  "wire (snd (polls rs q t)) = wire t @ take (sum_list rs) (pending (frames q) (cursor q))"
proof (induction rs arbitrary: q t)
  case Nil
  then show ?case by simp
next
  case (Cons r rs)
  obtain q1 t1 where p: "poll_send q (t\<lparr>room := r\<rparr>) = (q1, t1)"
    by (metis surj_pair)
  from poll_send_wire [OF p]
  have "wire t1 = wire t @ take r (pending (frames q) (cursor q))"
    and "pending (frames q1) (cursor q1) = drop r (pending (frames q) (cursor q))"
    by simp_all
  with Cons.IH [of q1 t1] p show ?case
    by (simp add: take_add)
qed

lemma poll_send_partial:
  assumes "frames q = f # fs" and "cursor q = 0" and "N < length f"
  shows "poll_send q (t\<lparr>room := N\<rparr>) = (q\<lparr>cursor := N\<rparr>, t\<lparr>room := 0, wire := wire t @ take N f\<rparr>)"
  using assms by (simp add: poll_send_def write_bytes_def Let_def min_def)

text \<open>
  C8. When the frame \<open>f\<close> at the head of the queue has length \<open>L\<close> and the transport
  accepts only \<open>N < L\<close> bytes in a poll, that poll puts the first \<open>N\<close> bytes of \<open>f\<close>
  on the wire and leaves the cursor at \<open>N\<close>. The polls that follow, whatever the link
  accepts in each, continue with the bytes of \<open>f\<close> from position \<open>N\<close> on, then with
  the frames behind it: nothing is sent twice and nothing is skipped, and once they have
  accepted \<open>L - N\<close> bytes the frame stands on the wire complete, exactly once.
\<close>

theorem partial_write_resumes_at_cursor:
  assumes "frames q = f # fs" and "cursor q = 0" and "N < length f"
  shows "poll_send q (t\<lparr>room := N\<rparr>) =
           (q\<lparr>cursor := N\<rparr>, t\<lparr>room := 0, wire := wire t @ take N f\<rparr>) \<and>
         wire (snd (polls rs (q\<lparr>cursor := N\<rparr>) (t\<lparr>room := 0, wire := wire t @ take N f\<rparr>))) =
           wire t @ take N f @ take (sum_list rs) (drop N f @ concat fs) \<and>
         (length f - N \<le> sum_list rs \<longrightarrow>
          take (length f)
            (drop (length (wire t))
               (wire (snd (polls rs (q\<lparr>cursor := N\<rparr>)
                  (t\<lparr>room := 0, wire := wire t @ take N f\<rparr>))))) = f)"
proof -
  let ?q1 = "q\<lparr>cursor := N\<rparr>"
  let ?t1 = "t\<lparr>room := 0, wire := wire t @ take N f\<rparr>"
  have w: "wire (snd (polls rs ?q1 ?t1)) =
      wire t @ take N f @ take (sum_list rs) (drop N f @ concat fs)"
    using assms(1) by (simp add: polls_wire pending_def)
  have "take (length f) (take N f @ take (sum_list rs) (drop N f @ concat fs)) = f"
    if "length f - N \<le> sum_list rs"
  proof -
    from that have "take (sum_list rs) (drop N f @ concat fs) =
        drop N f @ take (sum_list rs - (length f - N)) (concat fs)"
      by simp
    with assms(3) show ?thesis
      by (simp add: min_def)
  qed
  with w poll_send_partial [OF assms] show ?thesis
    by simp
qed

theorem partial_write_resumes_at_cursor_witness:
  "frames example_queue = [1, 2, 3, 4, 5] # [[6, 7]] \<and> cursor example_queue = 0 \<and>
   (2::nat) < length [1, 2, 3, 4, 5 :: byte] \<and>
   poll_send example_queue (example_transport\<lparr>room := 2\<rparr>) =
     (example_queue\<lparr>cursor := 2\<rparr>, \<lparr>room = 0, wire = [1, 2]\<rparr>) \<and>
   wire (snd (polls [3] (example_queue\<lparr>cursor := 2\<rparr>) \<lparr>room = 0, wire = [1, 2]\<rparr>)) =
     [1, 2, 3, 4, 5] \<and>
   wire (snd (polls [1, 0, 4] (example_queue\<lparr>cursor := 2\<rparr>) \<lparr>room = 0, wire = [1, 2]\<rparr>)) =
     [1, 2, 3, 4, 5, 6, 7]"
  using partial_write_resumes_at_cursor
      [where q = example_queue and f = "[1, 2, 3, 4, 5]" and fs = "[[6, 7]]" and N = 2
         and rs = "[3]" and t = example_transport]
    partial_write_resumes_at_cursor
      [where q = example_queue and f = "[1, 2, 3, 4, 5]" and fs = "[[6, 7]]" and N = 2
         and rs = "[1, 0, 4]" and t = example_transport]
  by (simp add: example_queue_def example_transport_def)

end
